theory Spec2Isabelle
  imports Complex_Main
begin

section \<open>Data model of the secure PDF viewer\<close>

text \<open>
  The component \<open>SecurePdfViewer\<close> (src/lib/secure-pdf-viewer/index.tsx) is a React
  function component. Its \<open>useState\<close> cells and \<open>useRef\<close> cells become the fields
  of one record; the browser facilities it talks to (the timer table behind
  \<open>setTimeout\<close>/\<open>clearTimeout\<close>, the listener list of \<open>document\<close>, the console)
  are further fields of the same record, so that every handler is a function from
  state to state.

  JavaScript numbers that are only compared (intersection ratios, widths) are rationals:
  every finite double is a rational, and a double exceeds the double nearest to 0.3
  exactly when its value exceeds 3/10. Page numbers, page counts and the clock are
  naturals. A DOM element, a timer handle and a function closure are known by their
  identity only, a natural number each.
\<close>

type_synonym element = nat
type_synonym timeout_id = nat

text \<open>The interfaces of types.ts. An optional property is an \<open>option\<close>.\<close>

record custom_styles =
  backgroundColor :: "string option"
  headerBgColor :: "string option"
  headerBorderColor :: "string option"
  textColor :: "string option"
  accentColor :: "string option"
  pageBackgroundColor :: "string option"

record props =
  fileUrl :: string
  maxWidth :: "rat option"
  watermarkText :: "string option"
  headerTitle :: "string option"
  poweredByText :: "string option"
  disableSecurity :: "bool option"
  customStyles :: "custom_styles option"

text \<open>An \<open>IntersectionObserverEntry\<close>, with the three properties the callback reads.\<close>

record entry =
  target :: element
  isIntersecting :: bool
  intersectionRatio :: rat

text \<open>
  The two closures that the protection effect creates on each run, tagged with the
  identity of that run, and the listeners of the host page, which are somebody else's.
\<close>

datatype listener = preventDefaultHandler nat | handleKeyDown nat | hostListener nat

type_synonym registration = "string \<times> listener \<times> bool"

text \<open>A pending timer: its handle, its deadline and the page its callback commits.\<close>

type_synonym timer = "timeout_id \<times> nat \<times> nat"

record viewer =
  props :: props
  numPages :: nat
  containerWidth :: "rat option"
  isLoading :: bool
  error :: "string option"
  currentPage :: nat
  pageRefs :: "element option list"
  loadedUrlRef :: "string option"
  lastPageRef :: nat
  handlePageVisibleTimeoutRef :: "timeout_id option"
  pdfDocumentRef :: "nat option"
  securityCleanup :: "nat option"
  now :: nat
  timers :: "timer list"
  nextTimeout :: timeout_id
  listeners :: "registration list"
  commits :: "nat list"
  console :: "string list"

text \<open>
  \<open>securityCleanup\<close> is the cleanup function React holds for the protection effect
  (\<open>None\<close> when the effect returned nothing); \<open>commits\<close> is the trace of the calls of
  \<open>setCurrentPage\<close> made by timer callbacks, oldest first.
\<close>

section \<open>Defaults of the destructured props\<close>

definition maxWidth' :: "props \<Rightarrow> rat" where
  "maxWidth' p = (case maxWidth p of None \<Rightarrow> 900 | Some m \<Rightarrow> m)"

definition watermarkText' :: "props \<Rightarrow> string" where
  "watermarkText' p = (case watermarkText p of None \<Rightarrow> ''KIITConnect'' | Some t \<Rightarrow> t)"

definition headerTitle' :: "props \<Rightarrow> string" where
  "headerTitle' p = (case headerTitle p of None \<Rightarrow> ''KIITConnect PDF Viewer'' | Some t \<Rightarrow> t)"

text \<open>The copyright sign of the default footer is written as its two UTF-8 bytes.\<close>

definition poweredByText' :: "props \<Rightarrow> string" where
  "poweredByText' p =
     (case poweredByText p of
        None \<Rightarrow> ''Powered by KIITConnect '' @ [CHR 0xC2, CHR 0xA9] @ '' 2024''
      | Some t \<Rightarrow> t)"

definition disableSecurity' :: "props \<Rightarrow> bool" where
  "disableSecurity' p = (case disableSecurity p of None \<Rightarrow> False | Some b \<Rightarrow> b)"

definition customStyles' :: "props \<Rightarrow> custom_styles" where
  "customStyles' p =
     (case customStyles p of
        None \<Rightarrow> \<lparr>backgroundColor = None, headerBgColor = None, headerBorderColor = None,
                 textColor = None, accentColor = None, pageBackgroundColor = None\<rparr>
      | Some c \<Rightarrow> c)"

section \<open>The load lifecycle\<close>

text \<open>
  The effect on \<open>[fileUrl]\<close> (index.tsx, lines 178 to 184):
  \<^verbatim>\<open>if (loadedUrlRef.current !== fileUrl) {
       setIsLoading(true); setError(null); loadedUrlRef.current = fileUrl; }\<close>
\<close>

definition fileUrl_effect :: "string \<Rightarrow> viewer \<Rightarrow> viewer" where
  "fileUrl_effect url s =
     (if loadedUrlRef s \<noteq> Some url
      then s\<lparr>isLoading := True, error := None, loadedUrlRef := Some url\<rparr>
      else s)"

text \<open>
  \<open>onDocumentLoadSuccess\<close> (lines 186 to 193) receives the document proxy, of which it
  reads \<open>numPages\<close> and \<open>_pdfInfo.document\<close>. It is given no URL and tests nothing.
\<close>

definition onDocumentLoadSuccess :: "nat \<Rightarrow> nat \<Rightarrow> viewer \<Rightarrow> viewer" where
  "onDocumentLoadSuccess nextNumPages document s =
     s\<lparr>pdfDocumentRef := Some document,
       numPages := nextNumPages,
       isLoading := False,
       error := None,
       pageRefs := replicate nextNumPages None\<rparr>"

definition load_failed_message :: string where
  "load_failed_message =
     ''Failed to load the PDF. Please check if the file exists and try again.''"

text \<open>
  \<open>onDocumentLoadError\<close> (lines 195 to 199). The raw error goes to the console only;
  the function returns normally.
\<close>

definition onDocumentLoadError :: "string \<Rightarrow> viewer \<Rightarrow> viewer" where
  "onDocumentLoadError err s =
     s\<lparr>isLoading := False,
       error := Some load_failed_message,
       console := console s @ [''PDF Load Error: '' @ err]\<rparr>"

text \<open>\<open>onResize\<close> (lines 118 to 123) keeps the width of the first entry, if there is one.\<close>

definition onResize :: "rat list \<Rightarrow> viewer \<Rightarrow> viewer" where
  "onResize entries s =
     (case entries of [] \<Rightarrow> s | w # _ \<Rightarrow> s\<lparr>containerWidth := Some w\<rparr>)"

text \<open>
  The ref callback of page slot \<open>index\<close> (line 271):
  \<^verbatim>\<open>el => pageRefs.current[index] = el\<close>. An assignment past the end of a JavaScript
  array extends it, the slots in between staying empty.
\<close>

definition set_pageRef :: "nat \<Rightarrow> element option \<Rightarrow> viewer \<Rightarrow> viewer" where
  "set_pageRef index el s =
     s\<lparr>pageRefs :=
         (if index < length (pageRefs s) then (pageRefs s)[index := el]
          else pageRefs s @ replicate (index - length (pageRefs s)) None @ [el])\<rparr>"

section \<open>Rendering\<close>

text \<open>
  \<open>PageContent\<close> (components/PageContent.tsx): the width handed to the page is
  \<^verbatim>\<open>containerWidth ? Math.min(containerWidth, maxWidth) : maxWidth\<close>, where a width
  of 0 is as falsy as \<open>undefined\<close>; the watermark label is the literal text of the JSX.
\<close>

record page_content =
  pageNumber :: nat
  width :: rat
  watermark :: string

definition truthy_number :: "rat option \<Rightarrow> bool" where
  "truthy_number x = (case x of None \<Rightarrow> False | Some w \<Rightarrow> w \<noteq> 0)"

definition truthy_string :: "string option \<Rightarrow> bool" where
  "truthy_string x = (case x of None \<Rightarrow> False | Some t \<Rightarrow> t \<noteq> [])"

definition PageContent :: "nat \<Rightarrow> rat option \<Rightarrow> rat \<Rightarrow> page_content" where
  "PageContent pn cw mw =
     \<lparr>pageNumber = pn,
      width = (if truthy_number cw then min (the cw) mw else mw),
      watermark = ''KIITConnect''\<rparr>"

text \<open>\<open>a || b\<close> on an optional string: the default stands in for an absent or empty one.\<close>

definition or_default :: "string option \<Rightarrow> string \<Rightarrow> string" where
  "or_default x d = (if truthy_string x then the x else d)"

record styles =
  style_backgroundColor :: string
  style_headerBgColor :: string
  style_headerBorderColor :: string
  style_textColor :: string
  style_accentColor :: string
  style_pageBackgroundColor :: string

definition styles_of :: "custom_styles \<Rightarrow> styles" where
  "styles_of c =
     \<lparr>style_backgroundColor = or_default (backgroundColor c) ''#121212'',
      style_headerBgColor = or_default (headerBgColor c) ''#121212'',
      style_headerBorderColor = or_default (headerBorderColor c) ''#333'',
      style_textColor = or_default (textColor c) ''#fff'',
      style_accentColor = or_default (accentColor c) ''#3B82F6'',
      style_pageBackgroundColor = or_default (pageBackgroundColor c) ''transparent''\<rparr>"

text \<open>
  What the component returns (lines 211 to 323): the header with its title and
  "Page x of y", the loading indicator, then either the error message or the
  \<open>Document\<close> element with its file URL and one \<open>PageContent\<close> per page, and the footer.
\<close>

record view =
  view_styles :: styles
  view_title :: string
  view_page :: nat
  view_of :: nat
  view_loading :: bool
  view_error :: "string option"
  view_document :: "(string \<times> page_content list) option"
  view_footer :: string

definition render :: "viewer \<Rightarrow> view" where
  "render s =
     \<lparr>view_styles = styles_of (customStyles' (props s)),
      view_title = headerTitle' (props s),
      view_page = currentPage s,
      view_of = numPages s,
      view_loading = (isLoading s \<and> \<not> truthy_string (error s)),
      view_error = (if truthy_string (error s) then error s else None),
      view_document =
        (if truthy_string (error s) then None
         else Some (fileUrl (props s),
                    map (\<lambda>index. PageContent (index + 1) (containerWidth s) (maxWidth' (props s)))
                      [0..<numPages s])),
      view_footer = poweredByText' (props s)\<rparr>"

definition page_slots :: "view \<Rightarrow> page_content list" where
  "page_slots v = (case view_document v of None \<Rightarrow> [] | Some (url, pages) \<Rightarrow> pages)"

section \<open>Timers\<close>

text \<open>
  \<open>setTimeout\<close> enters a timer due \<open>delay\<close> units from now into the table and returns
  a handle never given out before; \<open>clearTimeout\<close> removes the timer with that handle,
  and does nothing when it has fired or been cleared already. The only callback this
  component ever schedules is \<^verbatim>\<open>() => setCurrentPage(page)\<close>, so a timer stores the
  page.
\<close>

definition setTimeout :: "nat \<Rightarrow> nat \<Rightarrow> viewer \<Rightarrow> timeout_id \<times> viewer" where
  "setTimeout page delay s =
     (nextTimeout s,
      s\<lparr>timers := timers s @ [(nextTimeout s, now s + delay, page)],
        nextTimeout := Suc (nextTimeout s)\<rparr>)"

definition clearTimeout :: "timeout_id \<Rightarrow> viewer \<Rightarrow> viewer" where
  "clearTimeout h s = s\<lparr>timers := filter (\<lambda>tm. fst tm \<noteq> h) (timers s)\<rparr>"

definition setCurrentPage :: "nat \<Rightarrow> viewer \<Rightarrow> viewer" where
  "setCurrentPage page s = s\<lparr>currentPage := page, commits := commits s @ [page]\<rparr>"

definition deadline :: "timer \<Rightarrow> nat" where
  "deadline tm = fst (snd tm)"

definition is_due :: "nat \<Rightarrow> timer \<Rightarrow> bool" where
  "is_due t tm = (deadline tm \<le> t)"

text \<open>
  The clock moves on by \<open>d\<close> units: the timers whose deadline is reached leave the table
  and their callbacks run, earliest deadline first.
\<close>

definition advance :: "nat \<Rightarrow> viewer \<Rightarrow> viewer" where
  "advance d s =
     foldl (\<lambda>s' tm. setCurrentPage (snd (snd tm)) s')
       (s\<lparr>now := now s + d, timers := filter (\<lambda>tm. \<not> is_due (now s + d) tm) (timers s)\<rparr>)
       (sort_key deadline (filter (is_due (now s + d)) (timers s)))"

section \<open>Page visibility tracking\<close>

text \<open>
  \<open>handlePageVisible\<close> (lines 50 to 64). The handle in the ref is an object
  (\<open>NodeJS.Timeout | null\<close>), truthy whenever it is not \<open>null\<close>; the ref keeps the
  handle of a timer that has fired.
\<close>

definition handlePageVisible :: "nat \<Rightarrow> viewer \<Rightarrow> viewer" where
  "handlePageVisible page s =
     (if lastPageRef s = page then s
      else
        let s1 = (case handlePageVisibleTimeoutRef s of
                    None \<Rightarrow> s
                  | Some h \<Rightarrow> clearTimeout h s);
            s2 = s1\<lparr>lastPageRef := page\<rparr>;
            (h', s3) = setTimeout page 300 s2
        in s3\<lparr>handlePageVisibleTimeoutRef := Some h'\<rparr>)"

text \<open>\<open>pageRefs.current.findIndex(ref => ref === entry.target)\<close>; \<open>None\<close> stands for -1.\<close>

fun findIndex :: "element option list \<Rightarrow> element \<Rightarrow> nat option" where
  "findIndex [] t = None"
| "findIndex (r # rs) t =
     (if r = Some t then Some 0 else map_option Suc (findIndex rs t))"

text \<open>
  One turn of the \<open>forEach\<close> of the observer callback (lines 76 to 84), on the pair
  \<open>(maxVisibility, visiblePage)\<close>. \<open>maxVisibility\<close> is raised before the target is
  looked up, and \<open>visiblePage\<close> only when the lookup succeeds.
\<close>

definition scan_entry ::
  "element option list \<Rightarrow> rat \<times> nat option \<Rightarrow> entry \<Rightarrow> rat \<times> nat option" where
  "scan_entry refs acc e =
     (if isIntersecting e \<and> intersectionRatio e > fst acc
      then (intersectionRatio e,
            case findIndex refs (target e) of
              None \<Rightarrow> snd acc
            | Some pageIndex \<Rightarrow> Some (pageIndex + 1))
      else acc)"

definition most_visible :: "element option list \<Rightarrow> entry list \<Rightarrow> rat \<times> nat option" where
  "most_visible refs entries = foldl (scan_entry refs) (0, None) entries"

text \<open>
  The observer callback (lines 71 to 89):
  \<^verbatim>\<open>if (visiblePage && maxVisibility > 0.3) handlePageVisible(visiblePage)\<close>.
\<close>

definition observer_callback :: "entry list \<Rightarrow> viewer \<Rightarrow> viewer" where
  "observer_callback entries s =
     (case most_visible (pageRefs s) entries of
        (maxVisibility, None) \<Rightarrow> s
      | (maxVisibility, Some visiblePage) \<Rightarrow>
          if visiblePage \<noteq> 0 \<and> maxVisibility > 3 / 10
          then handlePageVisible visiblePage s
          else s)"

section \<open>The deterrence overlay\<close>

text \<open>
  The listener list of \<open>document\<close>. \<open>addEventListener\<close> appends a registration unless
  the same type, callback and capture flag are registered already;
  \<open>removeEventListener\<close> removes the registration that matches, if there is one.
\<close>

definition addEventListener :: "registration \<Rightarrow> registration list \<Rightarrow> registration list" where
  "addEventListener r doc = (if r \<in> set doc then doc else doc @ [r])"

definition removeEventListener :: "registration \<Rightarrow> registration list \<Rightarrow> registration list" where
  "removeEventListener r doc = remove1 r doc"

text \<open>
  The nine registrations of the protection effect (lines 148 to 156), in source order,
  for the closures of run \<open>k\<close>; all are capturing.
\<close>

definition protection :: "nat \<Rightarrow> registration list" where
  "protection k =
     [(''contextmenu'', preventDefaultHandler k, True),
      (''keydown'', handleKeyDown k, True),
      (''dragstart'', preventDefaultHandler k, True),
      (''drop'', preventDefaultHandler k, True),
      (''copy'', preventDefaultHandler k, True),
      (''cut'', preventDefaultHandler k, True),
      (''paste'', preventDefaultHandler k, True),
      (''selectstart'', preventDefaultHandler k, True),
      (''mousedown'', preventDefaultHandler k, True)]"

text \<open>
  A function expression evaluates to a new object, different from every listener
  registered so far: the run takes an identity above all those in the document.
\<close>

fun closure_of :: "listener \<Rightarrow> nat" where
  "closure_of (preventDefaultHandler k) = k"
| "closure_of (handleKeyDown k) = k"
| "closure_of (hostListener n) = 0"

definition fresh_closure :: "registration list \<Rightarrow> nat" where
  "fresh_closure doc = Suc (foldr (\<lambda>r m. max (closure_of (fst (snd r))) m) doc 0)"

text \<open>
  The protection effect (lines 128 to 175), on \<open>[disableSecurity]\<close>: it returns at once,
  with no cleanup, when \<open>disableSecurity\<close> is set; otherwise it registers the nine
  listeners and returns the cleanup, which unregisters them and clears the timer whose
  handle is in \<open>handlePageVisibleTimeoutRef\<close>.
\<close>

definition security_effect :: "bool \<Rightarrow> viewer \<Rightarrow> viewer" where
  "security_effect ds s =
     (if ds then s\<lparr>securityCleanup := None\<rparr>
      else
        let k = fresh_closure (listeners s)
        in s\<lparr>listeners := foldl (\<lambda>doc r. addEventListener r doc) (listeners s) (protection k),
             securityCleanup := Some k\<rparr>)"

definition security_cleanup :: "nat \<Rightarrow> viewer \<Rightarrow> viewer" where
  "security_cleanup k s =
     (let s1 = s\<lparr>listeners :=
                   foldl (\<lambda>doc r. removeEventListener r doc) (listeners s) (protection k)\<rparr>
      in case handlePageVisibleTimeoutRef s1 of
           None \<Rightarrow> s1
         | Some h \<Rightarrow> clearTimeout h s1)"

text \<open>React runs the cleanup an effect returned, once, before the next run and at unmount.\<close>

definition run_security_cleanup :: "viewer \<Rightarrow> viewer" where
  "run_security_cleanup s =
     (case securityCleanup s of
        None \<Rightarrow> s
      | Some k \<Rightarrow> (security_cleanup k s)\<lparr>securityCleanup := None\<rparr>)"

text \<open>
  What the listeners do to an event: \<open>preventDefaultHandler\<close> cancels every event,
  \<open>handleKeyDown\<close> (lines 136 to 145) the listed keys; what a listener of the host page
  does is the parameter \<open>host\<close>.
\<close>

record dom_event =
  event_type :: string
  ctrlKey :: bool
  key :: string

fun prevents :: "(nat \<Rightarrow> dom_event \<Rightarrow> bool) \<Rightarrow> listener \<Rightarrow> dom_event \<Rightarrow> bool" where
  "prevents host (preventDefaultHandler k) e = True"
| "prevents host (handleKeyDown k) e =
     ((ctrlKey e \<and> (key e = ''p'' \<or> key e = ''s'' \<or> key e = ''c''))
      \<or> key e = ''PrintScreen'' \<or> key e = ''F12'')"
| "prevents host (hostListener n) e = host n e"

definition defaultPrevented ::
  "(nat \<Rightarrow> dom_event \<Rightarrow> bool) \<Rightarrow> registration list \<Rightarrow> dom_event \<Rightarrow> bool" where
  "defaultPrevented host doc e =
     list_ex (\<lambda>r. fst r = event_type e \<and> prevents host (fst (snd r)) e) doc"

section \<open>Life cycle of the component\<close>

text \<open>
  The initial values of the state and ref cells (lines 34 to 49), in a page whose
  document has the listeners \<open>doc\<close>.
\<close>

definition initial :: "props \<Rightarrow> registration list \<Rightarrow> viewer" where
  "initial p doc =
     \<lparr>props = p, numPages = 0, containerWidth = None, isLoading = True, error = None,
      currentPage = 1, pageRefs = [], loadedUrlRef = None, lastPageRef = 1,
      handlePageVisibleTimeoutRef = None, pdfDocumentRef = None, securityCleanup = None,
      now = 0, timers = [], nextTimeout = 1, listeners = doc, commits = [], console = []\<rparr>"

text \<open>
  After the first render the effects run in source order. The observer effect returns
  at once while \<open>numPages\<close> is 0.
\<close>

definition mount :: "props \<Rightarrow> registration list \<Rightarrow> viewer" where
  "mount p doc =
     fileUrl_effect (fileUrl p) (security_effect (disableSecurity' p) (initial p doc))"

text \<open>
  A render with new props: an effect runs again, after its cleanup, only when one of its
  dependencies has changed.
\<close>

definition rerender :: "props \<Rightarrow> viewer \<Rightarrow> viewer" where
  "rerender p' s =
     (let s1 = s\<lparr>props := p'\<rparr>;
          s2 = (if disableSecurity' p' \<noteq> disableSecurity' (props s)
                then security_effect (disableSecurity' p') (run_security_cleanup s1)
                else s1)
      in if fileUrl p' \<noteq> fileUrl (props s) then fileUrl_effect (fileUrl p') s2 else s2)"

definition unmount :: "viewer \<Rightarrow> viewer" where
  "unmount s = run_security_cleanup s"

text \<open>
  The specification's \<open>load(sourceUrl)\<close> is, in the code, a render with that \<open>fileUrl\<close>
  prop.
\<close>

definition load :: "string \<Rightarrow> viewer \<Rightarrow> viewer" where
  "load url s = rerender ((props s)\<lparr>fileUrl := url\<rparr>) s"

text \<open>
  Everything that can happen to a mounted component. The results of the rendering
  engine carry, as their first argument, the URL whose load produced them; the handlers
  are not told it.
\<close>

datatype event =
    Props props
  | LoadSuccess string nat nat
  | LoadError string string
  | Resized "rat list"
  | PageRef nat "element option"
  | Intersections "entry list"
  | Elapsed nat

fun step :: "viewer \<Rightarrow> event \<Rightarrow> viewer" where
  "step s (Props p') = rerender p' s"
| "step s (LoadSuccess url n document) = onDocumentLoadSuccess n document s"
| "step s (LoadError url err) = onDocumentLoadError err s"
| "step s (Resized entries) = onResize entries s"
| "step s (PageRef index el) = set_pageRef index el s"
| "step s (Intersections entries) = observer_callback entries s"
| "step s (Elapsed d) = advance d s"

definition run :: "viewer \<Rightarrow> event list \<Rightarrow> viewer" where
  "run s evs = foldl step s evs"

section \<open>Auxiliary notions for the properties\<close>

text \<open>Props with every optional property absent.\<close>

definition plain_props :: "string \<Rightarrow> props" where
  "plain_props url =
     \<lparr>fileUrl = url, maxWidth = None, watermarkText = None, headerTitle = None,
      poweredByText = None, disableSecurity = None, customStyles = None\<rparr>"

text \<open>The URL in the ref is the URL of the props: true of every state after mounting.\<close>

definition url_inv :: "viewer \<Rightarrow> bool" where
  "url_inv s = (loadedUrlRef s = Some (fileUrl (props s)))"

text \<open>The page count of the last success in a sequence of events, \<open>n\<close> if there is none.\<close>

fun last_page_count :: "nat \<Rightarrow> event list \<Rightarrow> nat" where
  "last_page_count n [] = n"
| "last_page_count n (LoadSuccess url m document # evs) = last_page_count m evs"
| "last_page_count n (ev # evs) = last_page_count n evs"

text \<open>Every pending timer is the one whose handle is in the ref.\<close>

definition tracked :: "viewer \<Rightarrow> bool" where
  "tracked s = list_all (\<lambda>tm. handlePageVisibleTimeoutRef s = Some (fst tm)) (timers s)"


text \<open>
  The visibility events, the observation batches of a sequence of events, and the ratio
  most recently reported for an element.
\<close>

fun visibility_event :: "event \<Rightarrow> bool" where
  "visibility_event (Intersections es) = True"
| "visibility_event (Elapsed d) = True"
| "visibility_event ev = False"

fun batches :: "event list \<Rightarrow> entry list list" where
  "batches [] = []"
| "batches (Intersections es # evs) = es # batches evs"
| "batches (ev # evs) = batches evs"

definition last_ratio :: "element \<Rightarrow> event list \<Rightarrow> rat option" where
  "last_ratio el evs =
     (case filter (\<lambda>e. target e = el) (concat (batches evs)) of
        [] \<Rightarrow> None
      | e # es \<Rightarrow> Some (intersectionRatio (last (e # es))))"

text \<open>
  Every intersecting entry of the batch is about a registered page surface; and the
  page is significantly visible in the batch: an intersecting entry of that page has a
  ratio above 0.3 that no intersecting entry of the batch exceeds.
\<close>

definition resolvable :: "element option list \<Rightarrow> entry list \<Rightarrow> bool" where
  "resolvable refs es =
     list_all (\<lambda>e. isIntersecting e \<longrightarrow> findIndex refs (target e) \<noteq> None) es"

definition significant :: "element option list \<Rightarrow> entry list \<Rightarrow> nat \<Rightarrow> bool" where
  "significant refs es page =
     list_ex (\<lambda>e. isIntersecting e \<and> 3 / 10 < intersectionRatio e \<and>
                findIndex refs (target e) = Some (page - 1) \<and> 1 \<le> page \<and>
                list_all (\<lambda>e'. isIntersecting e' \<longrightarrow> intersectionRatio e' \<le> intersectionRatio e) es)
       es"

definition quiet_batch :: "entry list \<Rightarrow> bool" where
  "quiet_batch es = list_all (\<lambda>e. isIntersecting e \<longrightarrow> intersectionRatio e \<le> 3 / 10) es"

text \<open>
  The listeners and the cleanup agree with the props, in a page whose own listeners are
  \<open>doc\<close>.
\<close>

definition sec_inv :: "registration list \<Rightarrow> viewer \<Rightarrow> bool" where
  "sec_inv doc s =
     ((disableSecurity' (props s) \<and> securityCleanup s = None \<and> listeners s = doc) \<or>
      (\<not> disableSecurity' (props s) \<and> securityCleanup s = Some (fresh_closure doc) \<and>
       listeners s = doc @ protection (fresh_closure doc)))"

text \<open>
  An event that brings no new source: not a success of the engine, and no props with
  another URL.
\<close>

fun no_new_source :: "string \<Rightarrow> event \<Rightarrow> bool" where
  "no_new_source url (Props p') = (fileUrl p' = url)"
| "no_new_source url (LoadSuccess u n document) = False"
| "no_new_source url ev = True"

section \<open>Example sessions\<close>

text \<open>
  A viewer of \<open>a.pdf\<close> in a page without listeners of its own: once its two-page
  document has arrived and the container has been measured at 800 and then at 400
  units; and once a three-page document has arrived. And props that configure a
  watermark text.
\<close>

definition resized_viewer :: viewer where
  "resized_viewer =
     run (mount (plain_props ''a.pdf'') [])
       [LoadSuccess ''a.pdf'' 2 7, Resized [800], Resized [400]]"


definition confidential_props :: props where
  "confidential_props = (plain_props ''a.pdf'')\<lparr>watermarkText := Some ''Confidential''\<rparr>"

text \<open>
  A viewer whose three-page document has arrived and whose page slots are mounted as
  the elements 10, 11 and 12; and a batch in which the second page is the most visible.
\<close>

definition scrolling_viewer :: viewer where
  "scrolling_viewer =
     run (mount (plain_props ''a.pdf'') [])
       [LoadSuccess ''a.pdf'' 3 7, PageRef 0 (Some 10), PageRef 1 (Some 11),
        PageRef 2 (Some 12)]"

definition page2_batch :: "entry list" where
  "page2_batch =
     [\<lparr>target = 10, isIntersecting = True, intersectionRatio = 1 / 5\<rparr>,
      \<lparr>target = 11, isIntersecting = True, intersectionRatio = 9 / 20\<rparr>,
      \<lparr>target = 12, isIntersecting = False, intersectionRatio = 9 / 10\<rparr>]"

text \<open>
  The second page is selected at half its area, then seen at a tenth of it 100 units
  later, and another 200 units pass.
\<close>

definition scroll_away :: "event list" where
  "scroll_away =
     [Intersections [\<lparr>target = 11, isIntersecting = True, intersectionRatio = 1 / 2\<rparr>],
      Elapsed 100,
      Intersections [\<lparr>target = 11, isIntersecting = True, intersectionRatio = 1 / 10\<rparr>],
      Elapsed 200]"

text \<open>
  A host page with a listener of its own and a viewer mounted in it; a viewer with a
  commit pending, with and without the protection; and a viewer whose load has failed.
\<close>

definition host_page :: "registration list" where
  "host_page = [(''click'', hostListener 1, False)]"

definition hosted_viewer :: viewer where
  "hosted_viewer = run (mount (plain_props ''a.pdf'') host_page) [LoadSuccess ''a.pdf'' 3 7]"

definition page_events :: "event list" where
  "page_events =
     [LoadSuccess ''a.pdf'' 3 7, PageRef 0 (Some 10), PageRef 1 (Some 11),
      PageRef 2 (Some 12), Intersections page2_batch]"

definition pending_viewer :: viewer where
  "pending_viewer = run (mount (plain_props ''a.pdf'') []) page_events"

definition pending_unprotected_viewer :: viewer where
  "pending_unprotected_viewer =
     run (mount ((plain_props ''a.pdf'')\<lparr>disableSecurity := Some True\<rparr>) []) page_events"

definition failed_viewer :: viewer where
  "failed_viewer = run (mount (plain_props ''a.pdf'') []) [LoadError ''a.pdf'' ''404'']"

section \<open>Frame lemmas\<close>

lemmas eval_defs = run_def mount_def initial_def plain_props_def rerender_def load_def
  unmount_def fileUrl_effect_def security_effect_def security_cleanup_def
  run_security_cleanup_def onDocumentLoadSuccess_def onDocumentLoadError_def onResize_def
  set_pageRef_def observer_callback_def most_visible_def scan_entry_def
  handlePageVisible_def setTimeout_def clearTimeout_def setCurrentPage_def advance_def
  is_due_def deadline_def addEventListener_def removeEventListener_def protection_def
  fresh_closure_def disableSecurity'_def maxWidth'_def render_def page_slots_def
  PageContent_def truthy_number_def truthy_string_def tracked_def Let_def

lemma foldl_setCurrentPage:
  "foldl (\<lambda>s' tm. setCurrentPage (snd (snd tm)) s') s xs =
     s\<lparr>currentPage := (if xs = [] then currentPage s else snd (snd (last xs))),
       commits := commits s @ map (\<lambda>tm. snd (snd tm)) xs\<rparr>"
  by (induction xs arbitrary: s) (simp_all add: setCurrentPage_def)

lemma advance_eq:
  "advance d s =
     s\<lparr>now := now s + d,
       timers := filter (\<lambda>tm. \<not> is_due (now s + d) tm) (timers s),
       currentPage :=
         (if sort_key deadline (filter (is_due (now s + d)) (timers s)) = []
          then currentPage s
          else snd (snd (last (sort_key deadline (filter (is_due (now s + d)) (timers s)))))),
       commits := commits s @
          map (\<lambda>tm. snd (snd tm)) (sort_key deadline (filter (is_due (now s + d)) (timers s)))\<rparr>"
  unfolding advance_def foldl_setCurrentPage by simp

lemma handlePageVisible_eq:
  "handlePageVisible page s =
     (if lastPageRef s = page then s
      else s\<lparr>lastPageRef := page,
             timers := filter (\<lambda>tm. Some (fst tm) \<noteq> handlePageVisibleTimeoutRef s) (timers s)
                         @ [(nextTimeout s, now s + 300, page)],
             nextTimeout := Suc (nextTimeout s),
             handlePageVisibleTimeoutRef := Some (nextTimeout s)\<rparr>)"
  by (cases "handlePageVisibleTimeoutRef s")
     (simp_all add: handlePageVisible_def setTimeout_def clearTimeout_def)

lemma handlePageVisible_frame:
  "commits (handlePageVisible page s) = commits s"
  "currentPage (handlePageVisible page s) = currentPage s"
  "now (handlePageVisible page s) = now s"
  "pageRefs (handlePageVisible page s) = pageRefs s"
  by (simp_all add: handlePageVisible_eq)

lemma observer_callback_cases:
  "observer_callback entries s = s \<or>
   (\<exists>page. observer_callback entries s = handlePageVisible page s)"
  by (auto simp: observer_callback_def split: prod.splits option.splits)

subsection \<open>The URL ref follows the props\<close>

lemma url_inv_mount: "url_inv (mount p doc)"
  by (simp add: url_inv_def mount_def fileUrl_effect_def security_effect_def initial_def Let_def)

lemma url_inv_step: "url_inv s \<Longrightarrow> url_inv (step s ev)"
proof (cases ev)
  case (Intersections es)
  assume "url_inv s"
  with Intersections observer_callback_cases [of es s] show ?thesis
    by (auto simp: url_inv_def handlePageVisible_eq)
next
  case (Props p')
  assume "url_inv s"
  with Props show ?thesis
    by (auto simp: url_inv_def rerender_def Let_def fileUrl_effect_def security_effect_def
        run_security_cleanup_def security_cleanup_def clearTimeout_def split: option.splits)
qed (auto simp: url_inv_def onDocumentLoadSuccess_def onDocumentLoadError_def onResize_def
      set_pageRef_def advance_eq split: list.splits)

lemma url_inv_run: "url_inv s \<Longrightarrow> url_inv (run s evs)"
  unfolding run_def by (induction evs arbitrary: s) (simp_all add: url_inv_step)

subsection \<open>The page count is that of the last success\<close>

lemma numPages_step: "numPages (step s ev) = last_page_count (numPages s) [ev]"
proof (cases ev)
  case (Intersections es)
  with observer_callback_cases [of es s] show ?thesis
    by (auto simp: handlePageVisible_eq)
next
  case (Props p')
  then show ?thesis
    by (auto simp: rerender_def Let_def fileUrl_effect_def security_effect_def
        run_security_cleanup_def security_cleanup_def clearTimeout_def split: option.splits)
qed (auto simp: onDocumentLoadSuccess_def onDocumentLoadError_def onResize_def
      set_pageRef_def advance_eq split: list.splits)

lemma last_page_count_Cons:
  "last_page_count n (ev # evs) = last_page_count (last_page_count n [ev]) evs"
  by (cases ev) simp_all

lemma numPages_run: "numPages (run s evs) = last_page_count (numPages s) evs"
  unfolding run_def
proof (induction evs arbitrary: s)
  case Nil
  show ?case by simp
next
  case (Cons ev evs)
  show ?case
    using Cons.IH [of "step s ev"] last_page_count_Cons [of "numPages s" ev evs]
    by (simp add: numPages_step)
qed

lemma numPages_mount: "numPages (mount p doc) = 0"
  by (simp add: mount_def fileUrl_effect_def security_effect_def initial_def Let_def)

subsection \<open>Loading a URL\<close>

lemma load_same: "fileUrl (props s) = url \<Longrightarrow> load url s = s"
  by (simp add: load_def rerender_def disableSecurity'_def)

lemma load_idem: "load url (load url s) = load url s"
  by (rule load_same)
     (simp add: load_def rerender_def Let_def fileUrl_effect_def disableSecurity'_def)

lemma load_new:
  assumes "url_inv s" "url \<noteq> fileUrl (props s)"
  shows "load url s =
     s\<lparr>props := (props s)\<lparr>fileUrl := url\<rparr>, isLoading := True, error := None,
       loadedUrlRef := Some url\<rparr>"
  using assms
  by (simp add: load_def rerender_def Let_def fileUrl_effect_def url_inv_def
      disableSecurity'_def)

subsection \<open>The scan of an observation batch\<close>

lemma scan_bound:
  "fst acc \<le> c \<Longrightarrow> \<forall>e\<in>set es. isIntersecting e \<longrightarrow> intersectionRatio e \<le> c
   \<Longrightarrow> fst (foldl (scan_entry refs) acc es) \<le> c"
  by (induction es arbitrary: acc) (simp_all add: scan_entry_def)

lemma scan_mono: "fst acc \<le> fst (foldl (scan_entry refs) acc es)"
proof (induction es arbitrary: acc)
  case Nil
  show ?case by simp
next
  case (Cons e es)
  have "fst acc \<le> fst (scan_entry refs acc e)"
    by (simp add: scan_entry_def)
  also have "\<dots> \<le> fst (foldl (scan_entry refs) (scan_entry refs acc e) es)"
    by (rule Cons.IH)
  finally show ?case by simp
qed

lemma scan_upper:
  "\<forall>e\<in>set es. isIntersecting e \<longrightarrow> intersectionRatio e \<le> fst (foldl (scan_entry refs) acc es)"
proof (induction es arbitrary: acc)
  case Nil
  show ?case by simp
next
  case (Cons e es)
  have "isIntersecting e \<longrightarrow> intersectionRatio e \<le> fst (scan_entry refs acc e)"
    by (simp add: scan_entry_def)
  moreover have "fst (scan_entry refs acc e)
      \<le> fst (foldl (scan_entry refs) (scan_entry refs acc e) es)"
    by (rule scan_mono)
  ultimately show ?case
    using Cons.IH [of "scan_entry refs acc e"] by auto
qed

lemma scan_pick:
  assumes "\<forall>e\<in>set es. isIntersecting e \<longrightarrow> findIndex refs (target e) \<noteq> None"
  shows "foldl (scan_entry refs) acc es = acc \<or>
     (\<exists>e\<in>set es. isIntersecting e \<and> fst acc < intersectionRatio e \<and>
        foldl (scan_entry refs) acc es =
          (intersectionRatio e, map_option Suc (findIndex refs (target e))))"
  using assms
proof (induction es arbitrary: acc)
  case Nil
  show ?case by simp
next
  case (Cons e es)
  let ?a = "scan_entry refs acc e"
  from Cons.prems
  have H: "\<forall>e\<in>set es. isIntersecting e \<longrightarrow> findIndex refs (target e) \<noteq> None"
    by simp
  have le: "fst acc \<le> fst ?a"
    by (simp add: scan_entry_def)
  have here: "?a = acc \<or> (isIntersecting e \<and> fst acc < intersectionRatio e \<and>
       ?a = (intersectionRatio e, map_option Suc (findIndex refs (target e))))"
    using Cons.prems by (auto simp: scan_entry_def split: option.splits)
  from Cons.IH [OF H, of ?a] show ?case
  proof
    assume "foldl (scan_entry refs) ?a es = ?a"
    with here show ?thesis by auto
  next
    assume "\<exists>x\<in>set es. isIntersecting x \<and> fst ?a < intersectionRatio x \<and>
        foldl (scan_entry refs) ?a es =
          (intersectionRatio x, map_option Suc (findIndex refs (target x)))"
    then obtain x where "x \<in> set es" "isIntersecting x" "fst ?a < intersectionRatio x"
       "foldl (scan_entry refs) ?a es =
          (intersectionRatio x, map_option Suc (findIndex refs (target x)))"
      by blast
    with le show ?thesis
      by (intro disjI2 bexI [of _ x]) auto
  qed
qed

lemma map_Suc_SomeD:
  "map_option Suc x = Some page \<Longrightarrow> x = Some (page - 1) \<and> 1 \<le> page"
  by (cases x) auto

lemma observer_quiet:
  assumes "\<forall>e\<in>set es. isIntersecting e \<longrightarrow> intersectionRatio e \<le> 3 / 10"
  shows "observer_callback es s = s"
proof -
  have "fst (most_visible (pageRefs s) es) \<le> 3 / 10"
    unfolding most_visible_def using assms by (intro scan_bound) simp_all
  then show ?thesis
    by (auto simp: observer_callback_def split: prod.splits option.splits)
qed

text \<open>
  What a batch selects when every intersecting target is a registered page surface:
  nothing, or the page of an intersecting entry whose ratio is the greatest of the batch.
\<close>

lemma most_visible_cases:
  assumes "\<forall>e\<in>set entries. isIntersecting e \<longrightarrow> findIndex refs (target e) \<noteq> None"
  shows "most_visible refs entries = (0, None) \<or>
     (\<exists>e\<in>set entries. \<exists>page. isIntersecting e \<and>
        most_visible refs entries = (intersectionRatio e, Some page) \<and>
        findIndex refs (target e) = Some (page - 1) \<and> 1 \<le> page \<and>
        (\<forall>e'\<in>set entries. isIntersecting e' \<longrightarrow> intersectionRatio e' \<le> intersectionRatio e))"
proof -
  from scan_pick [OF assms, of "(0, None)"]
  show ?thesis
  proof
    assume "foldl (scan_entry refs) (0, None) entries = (0, None)"
    then show ?thesis by (simp add: most_visible_def)
  next
    assume "\<exists>e\<in>set entries. isIntersecting e \<and> fst (0, None) < intersectionRatio e \<and>
        foldl (scan_entry refs) (0, None) entries =
          (intersectionRatio e, map_option Suc (findIndex refs (target e)))"
    then obtain e where e: "e \<in> set entries" "isIntersecting e"
      and mv: "most_visible refs entries =
          (intersectionRatio e, map_option Suc (findIndex refs (target e)))"
      by (auto simp: most_visible_def)
    from e assms obtain i where i: "findIndex refs (target e) = Some i"
      by auto
    have up: "\<forall>e'\<in>set entries. isIntersecting e' \<longrightarrow> intersectionRatio e' \<le> intersectionRatio e"
      using scan_upper [of entries refs "(0, None)"] mv by (simp add: most_visible_def)
    have "isIntersecting e \<and>
        most_visible refs entries = (intersectionRatio e, Some (Suc i)) \<and>
        findIndex refs (target e) = Some (Suc i - 1) \<and> 1 \<le> Suc i \<and>
        (\<forall>e'\<in>set entries. isIntersecting e' \<longrightarrow> intersectionRatio e' \<le> intersectionRatio e)"
      using e mv i up by simp
    with e(1) show ?thesis by blast
  qed
qed

subsection \<open>One pending timer\<close>

lemma filter_tracked:
  "tracked s \<Longrightarrow>
   filter (\<lambda>tm. Some (fst tm) \<noteq> handlePageVisibleTimeoutRef s) (timers s) = []"
  by (auto simp: tracked_def list_all_iff filter_empty_conv)

lemma handlePageVisible_new:
  assumes "tracked s" "page \<noteq> lastPageRef s"
  shows "handlePageVisible page s =
     s\<lparr>lastPageRef := page, timers := [(nextTimeout s, now s + 300, page)],
       nextTimeout := Suc (nextTimeout s),
       handlePageVisibleTimeoutRef := Some (nextTimeout s)\<rparr>"
  using assms by (simp add: handlePageVisible_eq filter_tracked)




subsection \<open>The example sessions, evaluated\<close>

lemma scrolling_viewer_eq:
  "scrolling_viewer = (initial (plain_props ''a.pdf'') [])
     \<lparr>numPages := 3, isLoading := False, pageRefs := [Some 10, Some 11, Some 12],
      loadedUrlRef := Some ''a.pdf'', pdfDocumentRef := Some 7,
      securityCleanup := Some 1, listeners := protection 1\<rparr>"
  by (simp add: scrolling_viewer_def eval_defs initial_def numeral_3_eq_3)

subsection \<open>Runs of visibility events\<close>

lemma run_Cons: "run s (ev # evs) = run (step s ev) evs"
  by (simp add: run_def)

lemma run_Nil: "run s [] = s"
  by (simp add: run_def)

lemma batches_Cons: "batches (ev # evs) = batches [ev] @ batches evs"
  by (cases ev) simp_all

lemma significant_iff:
  "significant refs es page \<longleftrightarrow>
     (\<exists>e\<in>set es. isIntersecting e \<and> 3 / 10 < intersectionRatio e \<and>
        findIndex refs (target e) = Some (page - 1) \<and> 1 \<le> page \<and>
        (\<forall>e'\<in>set es. isIntersecting e' \<longrightarrow> intersectionRatio e' \<le> intersectionRatio e))"
  by (simp add: significant_def list_ex_iff list_all_iff)

lemma observer_callback_significant:
  assumes "resolvable (pageRefs s) es"
  shows "observer_callback es s = s \<or>
     (\<exists>page. significant (pageRefs s) es page \<and>
        observer_callback es s = handlePageVisible page s)"
proof -
  from assms
  have H: "\<forall>e\<in>set es. isIntersecting e \<longrightarrow> findIndex (pageRefs s) (target e) \<noteq> None"
    by (simp add: resolvable_def list_all_iff)
  from most_visible_cases [OF H] show ?thesis
  proof
    assume "most_visible (pageRefs s) es = (0, None)"
    then show ?thesis by (simp add: observer_callback_def)
  next
    assume "\<exists>e\<in>set es. \<exists>page. isIntersecting e \<and>
        most_visible (pageRefs s) es = (intersectionRatio e, Some page) \<and>
        findIndex (pageRefs s) (target e) = Some (page - 1) \<and> 1 \<le> page \<and>
        (\<forall>e'\<in>set es. isIntersecting e' \<longrightarrow> intersectionRatio e' \<le> intersectionRatio e)"
    then obtain e page where e: "e \<in> set es" "isIntersecting e"
      and mv: "most_visible (pageRefs s) es = (intersectionRatio e, Some page)"
      and ix: "findIndex (pageRefs s) (target e) = Some (page - 1)" "1 \<le> page"
      and up: "\<forall>e'\<in>set es. isIntersecting e' \<longrightarrow> intersectionRatio e' \<le> intersectionRatio e"
      by blast
    show ?thesis
    proof (cases "3 / 10 < intersectionRatio e")
      case True
      with e ix up have "significant (pageRefs s) es page"
        unfolding significant_iff by blast
      moreover from True mv ix(2) have "observer_callback es s = handlePageVisible page s"
        by (simp add: observer_callback_def)
      ultimately show ?thesis by blast
    next
      case False
      with mv show ?thesis by (simp add: observer_callback_def)
    qed
  qed
qed

lemma advance_currentPage:
  "currentPage (advance d s) = currentPage s \<or>
   currentPage (advance d s) \<in> (\<lambda>tm. snd (snd tm)) ` set (timers s)"
proof (cases "sort_key deadline (filter (is_due (now s + d)) (timers s)) = []")
  case True
  then show ?thesis by (simp add: advance_eq)
next
  case False
  let ?xs = "sort_key deadline (filter (is_due (now s + d)) (timers s))"
  from False have "last ?xs \<in> set ?xs"
    by (rule last_in_set)
  then have "last ?xs \<in> set (timers s)"
    by simp
  moreover have "currentPage (advance d s) = snd (snd (last ?xs))"
    using False by (simp add: advance_eq)
  ultimately show ?thesis by blast
qed

lemma advance_timers: "set (timers (advance d s)) \<subseteq> set (timers s)"
  by (auto simp: advance_eq)

lemma advance_pageRefs: "pageRefs (advance d s) = pageRefs s"
  by (simp add: advance_eq)

lemma handlePageVisible_timers:
  "set (timers (handlePageVisible page s)) \<subseteq> insert (nextTimeout s, now s + 300, page) (set (timers s))"
  by (auto simp: handlePageVisible_eq)

lemma visibility_run:
  assumes "currentPage s = c \<or> P (currentPage s)"
    and "\<forall>tm\<in>set (timers s). P (snd (snd tm))"
    and "list_all visibility_event evs"
    and "\<forall>es\<in>set (batches evs). resolvable (pageRefs s) es"
    and "\<forall>es\<in>set (batches evs). \<forall>page. significant (pageRefs s) es page \<longrightarrow> P page"
  shows "currentPage (run s evs) = c \<or> P (currentPage (run s evs))"
  using assms
proof (induction evs arbitrary: s)
  case Nil
  then show ?case by (simp add: run_Nil)
next
  case (Cons ev evs)
  from Cons.prems(3) have rest: "list_all visibility_event evs" by simp
  have keep: "pageRefs (step s ev) = pageRefs s \<and>
      (currentPage (step s ev) = c \<or> P (currentPage (step s ev))) \<and>
      (\<forall>tm\<in>set (timers (step s ev)). P (snd (snd tm)))"
  proof (cases ev)
    case (Intersections es)
    with Cons.prems(4,5) have r: "resolvable (pageRefs s) es"
      and sg: "\<forall>page. significant (pageRefs s) es page \<longrightarrow> P page"
      by simp_all
    from observer_callback_significant [OF r] show ?thesis
    proof
      assume "observer_callback es s = s"
      with Intersections Cons.prems(1,2) show ?thesis by simp
    next
      assume "\<exists>page. significant (pageRefs s) es page \<and>
        observer_callback es s = handlePageVisible page s"
      then obtain page where pg: "significant (pageRefs s) es page"
        and cb: "observer_callback es s = handlePageVisible page s"
        by blast
      from pg sg have "P page" by simp
      with Cons.prems(2) handlePageVisible_timers [of page s]
      have "\<forall>tm\<in>set (timers (handlePageVisible page s)). P (snd (snd tm))"
        by auto
      with Intersections cb Cons.prems(1) show ?thesis
        by (simp add: handlePageVisible_frame)
    qed
  next
    case (Elapsed d)
    from advance_currentPage [of d s] Cons.prems(1,2)
    have "currentPage (advance d s) = c \<or> P (currentPage (advance d s))"
      by auto
    moreover from advance_timers [of d s] Cons.prems(2)
    have "\<forall>tm\<in>set (timers (advance d s)). P (snd (snd tm))"
      by auto
    ultimately show ?thesis
      using Elapsed by (simp add: advance_pageRefs)
  qed (use Cons.prems(3) in simp_all)
  have b: "set (batches evs) \<subseteq> set (batches (ev # evs))"
    using batches_Cons [of ev evs] by simp
  have "currentPage (run (step s ev) evs) = c \<or> P (currentPage (run (step s ev) evs))"
  proof (rule Cons.IH)
    show "currentPage (step s ev) = c \<or> P (currentPage (step s ev))"
      using keep by simp
    show "\<forall>tm\<in>set (timers (step s ev)). P (snd (snd tm))"
      using keep by simp
    show "list_all visibility_event evs"
      by (rule rest)
    show "\<forall>es\<in>set (batches evs). resolvable (pageRefs (step s ev)) es"
      using keep Cons.prems(4) b by auto
    show "\<forall>es\<in>set (batches evs). \<forall>page. significant (pageRefs (step s ev)) es page \<longrightarrow> P page"
      using keep Cons.prems(5) b by auto
  qed
  then show ?case by (simp add: run_Cons)
qed

lemma quiet_step:
  assumes "timers s = []" "currentPage s = c" "list_all quiet_batch (batches [ev])"
  shows "timers (step s ev) = [] \<and> currentPage (step s ev) = c"
proof (cases ev)
  case (Intersections es)
  with assms(3) have "\<forall>e\<in>set es. isIntersecting e \<longrightarrow> intersectionRatio e \<le> 3 / 10"
    by (simp add: quiet_batch_def list_all_iff)
  then have "observer_callback es s = s"
    by (rule observer_quiet)
  with Intersections assms(1,2) show ?thesis by simp
next
  case (Props p')
  with assms(1,2) show ?thesis
    by (auto simp: rerender_def Let_def fileUrl_effect_def security_effect_def
        run_security_cleanup_def security_cleanup_def clearTimeout_def split: option.splits)
next
  case (Elapsed d)
  with assms(1,2) show ?thesis
    by (simp add: advance_eq)
qed (use assms(1,2) in \<open>auto simp: onDocumentLoadSuccess_def onDocumentLoadError_def
      onResize_def set_pageRef_def split: list.splits\<close>)

lemma quiet_run:
  assumes "timers s = []" "currentPage s = c" "list_all quiet_batch (batches evs)"
  shows "timers (run s evs) = [] \<and> currentPage (run s evs) = c"
  using assms
proof (induction evs arbitrary: s)
  case Nil
  then show ?case by (simp add: run_Nil)
next
  case (Cons ev evs)
  from Cons.prems(3) batches_Cons [of ev evs]
  have q: "list_all quiet_batch (batches [ev])" "list_all quiet_batch (batches evs)"
    by simp_all
  from quiet_step [OF Cons.prems(1,2) q(1)]
  have "timers (step s ev) = []" "currentPage (step s ev) = c"
    by simp_all
  from Cons.IH [OF this q(2)] show ?case
    by (simp add: run_Cons)
qed

lemma mount_fresh: "timers (mount p doc) = [] \<and> currentPage (mount p doc) = 1"
  by (simp add: mount_def fileUrl_effect_def security_effect_def initial_def Let_def)

subsection \<open>Installing and removing the protection\<close>

lemma closure_below_fresh:
  "r \<in> set doc \<Longrightarrow> closure_of (fst (snd r)) < fresh_closure doc"
  unfolding fresh_closure_def by (induction doc) auto

lemma protection_closure:
  "r \<in> set (protection k) \<Longrightarrow> closure_of (fst (snd r)) = k"
  by (auto simp: protection_def)

lemma protection_fresh:
  "set (protection (fresh_closure doc)) \<inter> set doc = {}"
  using closure_below_fresh [of _ doc] protection_closure [of _ "fresh_closure doc"]
  by fastforce

lemma distinct_protection: "distinct (protection k)"
  by (simp add: protection_def)

lemma install_append:
  "distinct ps \<Longrightarrow> set ps \<inter> set doc = {} \<Longrightarrow>
   foldl (\<lambda>doc r. addEventListener r doc) doc ps = doc @ ps"
proof (induction ps arbitrary: doc)
  case Nil
  show ?case by simp
next
  case (Cons r ps)
  from Cons.prems have "r \<notin> set doc" "distinct ps" "set ps \<inter> set (doc @ [r]) = {}"
    by auto
  with Cons.IH [of "doc @ [r]"] show ?case
    by (simp add: addEventListener_def)
qed

lemma uninstall_append:
  "set ps \<inter> set doc = {} \<Longrightarrow>
   foldl (\<lambda>doc r. removeEventListener r doc) (doc @ ps) ps = doc"
proof (induction ps arbitrary: doc)
  case Nil
  show ?case by simp
next
  case (Cons r ps)
  from Cons.prems have "r \<notin> set doc" "set ps \<inter> set doc = {}"
    by auto
  with Cons.IH [of doc] show ?case
    by (simp add: removeEventListener_def remove1_append)
qed

lemma install_fresh:
  "foldl (\<lambda>doc r. addEventListener r doc) doc (protection (fresh_closure doc))
     = doc @ protection (fresh_closure doc)"
  by (intro install_append distinct_protection protection_fresh)

lemma uninstall_fresh:
  "foldl (\<lambda>doc r. removeEventListener r doc) (doc @ protection (fresh_closure doc))
     (protection (fresh_closure doc)) = doc"
  by (intro uninstall_append protection_fresh)

lemma sec_inv_effect:
  assumes "listeners s = doc"
  shows "sec_inv doc ((security_effect (disableSecurity' p') s)\<lparr>props := p'\<rparr>)"
  using assms by (simp add: sec_inv_def security_effect_def Let_def install_fresh)

lemma sec_inv_cleanup:
  assumes "sec_inv doc s"
  shows "listeners (run_security_cleanup s) = doc \<and> securityCleanup (run_security_cleanup s) = None"
proof (cases "securityCleanup s")
  case None
  with assms show ?thesis by (simp add: run_security_cleanup_def sec_inv_def)
next
  case (Some k)
  with assms have "k = fresh_closure doc" "listeners s = doc @ protection (fresh_closure doc)"
    by (simp_all add: sec_inv_def)
  with Some show ?thesis
    by (simp add: run_security_cleanup_def security_cleanup_def clearTimeout_def uninstall_fresh
        Let_def split: option.splits)
qed

lemma sec_inv_mount: "sec_inv doc (mount p doc)"
  by (simp add: mount_def fileUrl_effect_def sec_inv_def security_effect_def initial_def Let_def
      install_fresh)

lemma sec_inv_frame:
  assumes "sec_inv doc s" "securityCleanup s' = securityCleanup s" "listeners s' = listeners s"
    "disableSecurity' (props s') = disableSecurity' (props s)"
  shows "sec_inv doc s'"
  using assms by (simp add: sec_inv_def)

lemma sec_inv_rerender: "sec_inv doc s \<Longrightarrow> sec_inv doc (rerender p' s)"
proof -
  assume inv: "sec_inv doc s"
  let ?s1 = "s\<lparr>props := p'\<rparr>"
  show ?thesis
  proof (cases "disableSecurity' p' = disableSecurity' (props s)")
    case True
    with inv have "sec_inv doc ?s1" by (simp add: sec_inv_def)
    then have "sec_inv doc (fileUrl_effect (fileUrl p') ?s1)"
      by (rule sec_inv_frame) (simp_all add: fileUrl_effect_def)
    with True \<open>sec_inv doc ?s1\<close> show ?thesis
      by (simp add: rerender_def Let_def)
  next
    case False
    let ?c = "run_security_cleanup ?s1"
    have "listeners (run_security_cleanup s) = doc"
      using sec_inv_cleanup [OF inv] by simp
    moreover have "listeners ?c = listeners (run_security_cleanup s)"
      by (simp add: run_security_cleanup_def security_cleanup_def clearTimeout_def Let_def
          split: option.splits)
    ultimately have lc: "listeners ?c = doc" by simp
    have pc: "props ?c = p'"
      by (simp add: run_security_cleanup_def security_cleanup_def clearTimeout_def Let_def
          split: option.splits)
    let ?s2 = "security_effect (disableSecurity' p') ?c"
    have "sec_inv doc (?s2\<lparr>props := p'\<rparr>)"
      using lc by (rule sec_inv_effect)
    moreover have "?s2\<lparr>props := p'\<rparr> = ?s2"
      using pc by (simp add: security_effect_def Let_def)
    ultimately have s2: "sec_inv doc ?s2" by simp
    then have "sec_inv doc (fileUrl_effect (fileUrl p') ?s2)"
      by (rule sec_inv_frame) (simp_all add: fileUrl_effect_def)
    with False s2 show ?thesis
      by (simp add: rerender_def Let_def)
  qed
qed

lemma observer_callback_frame:
  "props (observer_callback es s) = props s"
  "securityCleanup (observer_callback es s) = securityCleanup s"
  "listeners (observer_callback es s) = listeners s"
  using observer_callback_cases [of es s] by (auto simp: handlePageVisible_eq)

lemma sec_inv_step: "sec_inv doc s \<Longrightarrow> sec_inv doc (step s ev)"
proof (cases ev)
  case (Props p')
  assume "sec_inv doc s"
  with Props show ?thesis by (simp add: sec_inv_rerender)
next
  case (Intersections es)
  assume "sec_inv doc s"
  then have "sec_inv doc (observer_callback es s)"
    by (rule sec_inv_frame) (simp_all add: observer_callback_frame)
  with Intersections show ?thesis by simp
qed (auto simp: sec_inv_def onDocumentLoadSuccess_def onDocumentLoadError_def onResize_def
      set_pageRef_def advance_eq split: list.splits)

lemma sec_inv_run: "sec_inv doc s \<Longrightarrow> sec_inv doc (run s evs)"
  unfolding run_def by (induction evs arbitrary: s) (simp_all add: sec_inv_step)

lemma tracked_mount: "tracked (mount p doc)"
  by (simp add: tracked_def mount_def fileUrl_effect_def security_effect_def initial_def Let_def)

lemma tracked_step: "tracked s \<Longrightarrow> tracked (step s ev)"
proof (cases ev)
  case (Props p')
  assume "tracked s"
  with Props show ?thesis
    by (auto simp: tracked_def list_all_iff rerender_def Let_def fileUrl_effect_def
        security_effect_def run_security_cleanup_def security_cleanup_def clearTimeout_def
        split: option.splits)
next
  case (Intersections es)
  assume t: "tracked s"
  from observer_callback_cases [of es s] show ?thesis
  proof
    assume "observer_callback es s = s"
    with t Intersections show ?thesis by simp
  next
    assume "\<exists>page. observer_callback es s = handlePageVisible page s"
    then obtain page where "observer_callback es s = handlePageVisible page s" by blast
    with t Intersections show ?thesis
      by (cases "page = lastPageRef s")
         (simp_all add: handlePageVisible_new, simp_all add: handlePageVisible_eq tracked_def)
  qed
qed (auto simp: tracked_def list_all_iff onDocumentLoadSuccess_def onDocumentLoadError_def
      onResize_def set_pageRef_def advance_eq split: list.splits)

lemma tracked_run: "tracked s \<Longrightarrow> tracked (run s evs)"
  unfolding run_def by (induction evs arbitrary: s) (simp_all add: tracked_step)

lemma unmount_timers:
  assumes "sec_inv doc s" "tracked s"
  shows "timers (unmount s) = (if disableSecurity' (props s) then timers s else [])"
proof (cases "securityCleanup s")
  case None
  with assms(1) show ?thesis
    by (simp add: unmount_def run_security_cleanup_def sec_inv_def)
next
  case (Some k)
  with assms(1) have en: "\<not> disableSecurity' (props s)"
    by (simp add: sec_inv_def)
  show ?thesis
  proof (cases "handlePageVisibleTimeoutRef s")
    case None
    with assms(2) have "timers s = []"
      by (cases "timers s") (simp_all add: tracked_def)
    with None \<open>securityCleanup s = Some k\<close> en show ?thesis
      by (simp add: unmount_def run_security_cleanup_def security_cleanup_def)
  next
    case (Some h)
    with assms(2) have "filter (\<lambda>tm. fst tm \<noteq> h) (timers s) = []"
      by (auto simp: tracked_def list_all_iff filter_empty_conv)
    with Some \<open>securityCleanup s = Some k\<close> en show ?thesis
      by (simp add: unmount_def run_security_cleanup_def security_cleanup_def clearTimeout_def
          Let_def)
  qed
qed

subsection \<open>A failure stays until a new source is configured\<close>

lemma error_step:
  assumes "error s = Some load_failed_message" "no_new_source (fileUrl (props s)) ev"
  shows "error (step s ev) = Some load_failed_message \<and>
     fileUrl (props (step s ev)) = fileUrl (props s)"
proof (cases ev)
  case (Props p')
  with assms show ?thesis
    by (auto simp: rerender_def Let_def security_effect_def
        run_security_cleanup_def security_cleanup_def clearTimeout_def split: option.splits)
next
  case (Intersections es)
  with assms observer_callback_cases [of es s] show ?thesis
    by (auto simp: handlePageVisible_eq)
qed (use assms in \<open>auto simp: onDocumentLoadError_def onResize_def set_pageRef_def advance_eq
      split: list.splits\<close>)

lemma error_run:
  assumes "error s = Some load_failed_message"
    "list_all (no_new_source (fileUrl (props s))) evs"
  shows "error (run s evs) = Some load_failed_message"
  using assms
proof (induction evs arbitrary: s)
  case Nil
  then show ?case by (simp add: run_Nil)
next
  case (Cons ev evs)
  from Cons.prems have "no_new_source (fileUrl (props s)) ev" by simp
  from error_step [OF Cons.prems(1) this] Cons.prems(2)
  have "error (step s ev) = Some load_failed_message"
    "list_all (no_new_source (fileUrl (props (step s ev)))) evs"
    by simp_all
  from Cons.IH [OF this] show ?case by (simp add: run_Cons)
qed

section \<open>The load lifecycle: claims C1, C2 and C8\<close>

text \<open>
  C1, as stated, fails. The props change from \<open>a.pdf\<close> to \<open>b.pdf\<close>, the viewer is
  loading with no pages; then the result of the superseded load of \<open>a.pdf\<close> is
  delivered, and it is applied: the viewer stops loading and has three pages.
\<close>

theorem stale_result_is_applied:
  "loadedUrlRef (run (mount (plain_props ''a.pdf'') []) [Props (plain_props ''b.pdf'')])
     = Some ''b.pdf'' \<and>
   isLoading (run (mount (plain_props ''a.pdf'') []) [Props (plain_props ''b.pdf'')]) \<and>
   numPages (run (mount (plain_props ''a.pdf'') []) [Props (plain_props ''b.pdf'')]) = 0 \<and>
   \<not> isLoading (run (mount (plain_props ''a.pdf'') [])
       [Props (plain_props ''b.pdf''), LoadSuccess ''a.pdf'' 3 7]) \<and>
   numPages (run (mount (plain_props ''a.pdf'') [])
       [Props (plain_props ''b.pdf''), LoadSuccess ''a.pdf'' 3 7]) = 3"
  by (simp add: eval_defs)

text \<open>
  C1, amended: a repeated load of an unchanged source URL changes nothing; and the
  handlers apply every result that is delivered to them, whichever load produced it:
  the page count is always that of the last success delivered (0 before the first), a
  success ends loading and clears the error, a failure ends loading and sets the
  message. Keeping back the results of a superseded load is left to the rendering
  engine.
\<close>

theorem load_idempotent_and_results_applied:
  "load url (load url s) = load url s \<and>
   (fileUrl (props s) = url \<longrightarrow> load url s = s) \<and>
   numPages (run (mount p doc) evs) = last_page_count 0 evs \<and>
   numPages (step s (LoadSuccess u n d)) = n \<and>
   \<not> isLoading (step s (LoadSuccess u n d)) \<and>
   error (step s (LoadSuccess u n d)) = None \<and>
   \<not> isLoading (step s (LoadError u e)) \<and>
   error (step s (LoadError u e)) = Some load_failed_message"
  by (simp add: load_idem load_same numPages_run numPages_mount onDocumentLoadSuccess_def
      onDocumentLoadError_def)

theorem load_idempotent_and_results_applied_witness:
  "fileUrl (props (mount (plain_props ''a.pdf'') [])) = ''a.pdf'' \<and>
   load ''a.pdf'' (mount (plain_props ''a.pdf'') []) = mount (plain_props ''a.pdf'') [] \<and>
   numPages (run (mount (plain_props ''a.pdf'') [])
      [Props (plain_props ''b.pdf''), LoadSuccess ''a.pdf'' 3 7, LoadSuccess ''b.pdf'' 5 8]) = 5"
proof -
  have h: "fileUrl (props (mount (plain_props ''a.pdf'') [])) = ''a.pdf''"
    by (simp add: eval_defs)
  from load_idempotent_and_results_applied
    [of "''a.pdf''" "mount (plain_props ''a.pdf'') []" "plain_props ''a.pdf''" "[]"
      "[Props (plain_props ''b.pdf''), LoadSuccess ''a.pdf'' 3 7, LoadSuccess ''b.pdf'' 5 8]"] h
  show ?thesis by simp
qed




text \<open>
  C8. When a load of a mounted viewer fails, the view shows the fixed message whatever
  the error was, no document and no page slot is rendered and the loading indicator is
  off; the raw error goes to the console only and the handler returns a state. Nothing
  loads again by itself: configuring the same URL changes nothing, and the message
  stays through every sequence of events that holds neither props with another URL nor
  a success of the engine. Loading another URL clears the message, shows the loading
  indicator and renders the document for the new URL.
\<close>

theorem load_failure_shows_fixed_message:
  assumes "s = run (mount p doc) evs" and "f = onDocumentLoadError err s"
  shows "view_error (render f) = Some load_failed_message \<and>
     page_slots (render f) = [] \<and> view_document (render f) = None \<and>
     \<not> view_loading (render f) \<and>
     console f = console s @ [''PDF Load Error: '' @ err] \<and>
     load (fileUrl (props s)) f = f \<and>
     (list_all (no_new_source (fileUrl (props s))) evs' \<longrightarrow>
        view_error (render (run f evs')) = Some load_failed_message \<and>
        view_document (render (run f evs')) = None) \<and>
     (url \<noteq> fileUrl (props s) \<longrightarrow>
        view_error (render (load url f)) = None \<and> view_loading (render (load url f)) \<and>
        map_option fst (view_document (render (load url f))) = Some url)"
proof -
  have lm: "truthy_string (Some load_failed_message)"
    by (simp add: truthy_string_def load_failed_message_def)
  have ef: "error f = Some load_failed_message" and pf: "props f = props s"
    by (simp_all add: assms(2) onDocumentLoadError_def)
  have shown: "view_error (render f) = Some load_failed_message \<and>
     page_slots (render f) = [] \<and> view_document (render f) = None \<and>
     \<not> view_loading (render f)"
    using lm ef by (simp add: render_def page_slots_def)
  have cons: "console f = console s @ [''PDF Load Error: '' @ err]"
    by (simp add: assms(2) onDocumentLoadError_def)
  have same: "load (fileUrl (props s)) f = f"
    using pf by (intro load_same) simp
  have stay: "view_error (render (run f evs')) = Some load_failed_message \<and>
        view_document (render (run f evs')) = None"
    if "list_all (no_new_source (fileUrl (props s))) evs'"
  proof -
    from that pf have "list_all (no_new_source (fileUrl (props f))) evs'" by simp
    with ef have "error (run f evs') = Some load_failed_message" by (rule error_run)
    with lm show ?thesis by (simp add: render_def)
  qed
  have new: "view_error (render (load url f)) = None \<and> view_loading (render (load url f)) \<and>
        map_option fst (view_document (render (load url f))) = Some url"
    if "url \<noteq> fileUrl (props s)"
  proof -
    have "url_inv s"
      unfolding assms(1) by (intro url_inv_run url_inv_mount)
    then have "url_inv f"
      by (simp add: url_inv_def assms(2) onDocumentLoadError_def)
    moreover from that pf have "url \<noteq> fileUrl (props f)" by simp
    ultimately have "load url f =
       f\<lparr>props := (props f)\<lparr>fileUrl := url\<rparr>, isLoading := True, error := None,
         loadedUrlRef := Some url\<rparr>"
      by (rule load_new)
    then show ?thesis
      by (simp add: render_def truthy_string_def)
  qed
  show ?thesis
    using shown cons same stay new by simp
qed

theorem load_failure_shows_fixed_message_witness:
  "view_error (render failed_viewer) = Some load_failed_message \<and>
   page_slots (render failed_viewer) = [] \<and>
   list_all (no_new_source ''a.pdf'') [Resized [640], Elapsed 5000, Props (plain_props ''a.pdf'')] \<and>
   view_error (render (run failed_viewer
      [Resized [640], Elapsed 5000, Props (plain_props ''a.pdf'')])) = Some load_failed_message \<and>
   ''b.pdf'' \<noteq> fileUrl (props (mount (plain_props ''a.pdf'') [])) \<and>
   view_error (render (load ''b.pdf'' failed_viewer)) = None \<and>
   view_loading (render (load ''b.pdf'' failed_viewer))"
proof -
  have f: "failed_viewer = onDocumentLoadError ''404'' (run (mount (plain_props ''a.pdf'') []) [])"
    by (simp add: failed_viewer_def run_def)
  have u: "fileUrl (props (run (mount (plain_props ''a.pdf'') []) [])) = ''a.pdf''"
    by (simp add: eval_defs)
  have q: "list_all (no_new_source ''a.pdf'')
      [Resized [640], Elapsed 5000, Props (plain_props ''a.pdf'')]"
    by (simp add: plain_props_def)
  have n: "''b.pdf'' \<noteq> fileUrl (props (mount (plain_props ''a.pdf'') []))"
    by (simp add: eval_defs)
  from load_failure_shows_fixed_message [OF refl f, where url = "''b.pdf''"
      and evs' = "[Resized [640], Elapsed 5000, Props (plain_props ''a.pdf'')]"] u q n
  show ?thesis by (simp add: run_Nil)
qed

section \<open>Rendering: claims C3 and C9\<close>

text \<open>
  C3 does not hold of the code: with the watermark text configured as "Confidential",
  the label of each rendered page is still the fixed text "KIITConnect".
  \<open>PageContent\<close> is not given the option.
\<close>

theorem watermark_is_fixed_text:
  "watermarkText' confidential_props = ''Confidential'' \<and>
   map watermark (page_slots (render (run (mount confidential_props [])
       [LoadSuccess ''a.pdf'' 2 7]))) = [''KIITConnect'', ''KIITConnect'']"
  by (simp add: confidential_props_def eval_defs upt_rec watermarkText'_def)

text \<open>
  C9, as stated, fails for a container measured at width 0: with the default maximum of
  900 the pages are rendered 900 wide, and the minimum of 0 and 900 is 0.
\<close>

theorem render_width_zero_container:
  "map width (page_slots (render (run (mount (plain_props ''a.pdf'') [])
       [LoadSuccess ''a.pdf'' 2 7, Resized [0]]))) = [900, 900] \<and> min (0::rat) 900 = 0"
  by (simp add: eval_defs upt_rec)

text \<open>
  C9, amended: for every known container width \<open>w\<close> other than 0 and configured maximum
  render width \<open>m\<close> (900 by default), the render width of each page is \<open>min w m\<close>; when
  the container width is unknown or 0 it is \<open>m\<close>. In the witness the container goes
  from 800 to 400 with the default maximum, and both pages are 400 wide.
\<close>

theorem render_width_min:
  "(containerWidth s = Some w \<and> w \<noteq> 0 \<longrightarrow>
      (\<forall>pc \<in> set (page_slots (render s)). width pc = min w (maxWidth' (props s)))) \<and>
   (containerWidth s = None \<or> containerWidth s = Some 0 \<longrightarrow>
      (\<forall>pc \<in> set (page_slots (render s)). width pc = maxWidth' (props s)))"
  by (auto simp: render_def page_slots_def PageContent_def truthy_number_def)

theorem render_width_min_witness:
  "containerWidth resized_viewer = Some 400 \<and> (400::rat) \<noteq> 0 \<and>
   maxWidth' (props resized_viewer) = 900 \<and>
   length (page_slots (render resized_viewer)) = 2 \<and>
   list_all (\<lambda>pc. width pc = 400) (page_slots (render resized_viewer))"
proof -
  have cw: "containerWidth resized_viewer = Some 400"
    by (simp add: resized_viewer_def eval_defs)
  have mw: "maxWidth' (props resized_viewer) = 900"
    by (simp add: resized_viewer_def eval_defs)
  have len: "length (page_slots (render resized_viewer)) = 2"
    by (simp add: resized_viewer_def eval_defs)
  from render_width_min [of resized_viewer 400] cw mw
  have "\<forall>pc \<in> set (page_slots (render resized_viewer)). width pc = 400"
    by simp
  then show ?thesis
    using cw mw len by (simp add: list_all_iff)
qed

section \<open>Page visibility: claims C4, C5 and C6\<close>



text \<open>
  C5, as stated, fails. The second page is selected at ratio 0.5; 100 units later the
  observer reports it at ratio 0.1, which is the last that is heard of it; after
  another 200 units the timer commits it as the current page.
\<close>

theorem page_committed_after_scrolling_away:
  "currentPage (run scrolling_viewer (butlast scroll_away)) = 1 \<and>
   last_ratio 11 (butlast scroll_away) = Some (1 / 10) \<and>
   findIndex (pageRefs scrolling_viewer) 11 = Some 1 \<and>
   last scroll_away = Elapsed 200 \<and>
   currentPage (run scrolling_viewer scroll_away) = 2 \<and>
   commits (run scrolling_viewer scroll_away) = [2]"
  by (simp add: scrolling_viewer_eq scroll_away_def initial_def last_ratio_def eval_defs)

text \<open>
  C5, amended: the visibility ratio is tested when a batch selects the page, not when
  the timer commits it. For every sequence of observation batches and lapses of time,
  starting with no timer pending and with every intersecting entry about a registered
  page surface, the current page either is what it was at the start or was
  significantly visible in one of the batches: an intersecting entry of that page had a
  ratio above 0.3, the greatest of its batch. And if, since mounting, no batch has had
  an intersecting entry above 0.3, the current page is 1.
\<close>

theorem current_page_significant_when_selected:
  "(list_all visibility_event evs \<and> timers s = [] \<and>
    list_all (resolvable (pageRefs s)) (batches evs) \<longrightarrow>
      currentPage (run s evs) = currentPage s \<or>
      list_ex (\<lambda>es. significant (pageRefs s) es (currentPage (run s evs))) (batches evs)) \<and>
   (list_all quiet_batch (batches evs') \<longrightarrow> currentPage (run (mount p doc) evs') = 1)"
proof (intro conjI impI)
  assume a: "list_all visibility_event evs \<and> timers s = [] \<and>
    list_all (resolvable (pageRefs s)) (batches evs)"
  let ?P = "\<lambda>page. list_ex (\<lambda>es. significant (pageRefs s) es page) (batches evs)"
  have "currentPage (run s evs) = currentPage s \<or> ?P (currentPage (run s evs))"
  proof (rule visibility_run)
    show "currentPage s = currentPage s \<or> ?P (currentPage s)" by simp
    show "\<forall>tm\<in>set (timers s). ?P (snd (snd tm))" using a by simp
    show "list_all visibility_event evs" using a by simp
    show "\<forall>es\<in>set (batches evs). resolvable (pageRefs s) es"
      using a by (simp add: list_all_iff)
    show "\<forall>es\<in>set (batches evs). \<forall>page. significant (pageRefs s) es page \<longrightarrow> ?P page"
      by (auto simp: list_ex_iff)
  qed
  then show "currentPage (run s evs) = currentPage s \<or>
      list_ex (\<lambda>es. significant (pageRefs s) es (currentPage (run s evs))) (batches evs)" .
next
  assume "list_all quiet_batch (batches evs')"
  with mount_fresh [of p doc] quiet_run [of "mount p doc" 1 evs']
  show "currentPage (run (mount p doc) evs') = 1" by simp
qed

theorem current_page_significant_when_selected_witness:
  "list_all visibility_event [Intersections page2_batch, Elapsed 300] \<and>
   timers scrolling_viewer = [] \<and>
   list_all (resolvable (pageRefs scrolling_viewer))
     (batches [Intersections page2_batch, Elapsed 300]) \<and>
   currentPage scrolling_viewer = 1 \<and>
   currentPage (run scrolling_viewer [Intersections page2_batch, Elapsed 300]) = 2 \<and>
   list_ex (\<lambda>es. significant (pageRefs scrolling_viewer) es 2)
     (batches [Intersections page2_batch, Elapsed 300]) \<and>
   list_all quiet_batch
     (batches
        [Intersections [\<lparr>target = 11, isIntersecting = True, intersectionRatio = 3 / 10\<rparr>],
         Elapsed 300]) \<and>
   currentPage (run (mount (plain_props ''a.pdf'') [])
     [Intersections [\<lparr>target = 11, isIntersecting = True, intersectionRatio = 3 / 10\<rparr>],
      Elapsed 300]) = 1"
proof -
  let ?evs = "[Intersections page2_batch, Elapsed 300]"
  let ?evs' =
    "[Intersections [\<lparr>target = 11, isIntersecting = True, intersectionRatio = 3 / 10\<rparr>],
      Elapsed 300]"
  have v: "list_all visibility_event ?evs"
    by simp
  have t: "timers scrolling_viewer = []" and c1: "currentPage scrolling_viewer = 1"
    by (simp_all add: scrolling_viewer_eq initial_def)
  have r: "list_all (resolvable (pageRefs scrolling_viewer)) (batches ?evs)"
    by (simp add: scrolling_viewer_eq resolvable_def page2_batch_def)
  have c2: "currentPage (run scrolling_viewer ?evs) = 2"
    by (simp add: scrolling_viewer_eq initial_def page2_batch_def eval_defs)
  have q: "list_all quiet_batch (batches ?evs')"
    by (simp add: quiet_batch_def)
  from current_page_significant_when_selected
      [of ?evs scrolling_viewer ?evs' "plain_props ''a.pdf''" "[]"] v t r q c1 c2
  show ?thesis by simp
qed

text \<open>
  C6. In a batch whose intersecting entries are all about registered page surfaces, the
  callback selects the page of an intersecting entry whose ratio is the greatest among
  the intersecting entries of the batch (nothing when no entry intersects with a
  positive ratio), and hands it to \<open>handlePageVisible\<close> only when that ratio is above
  0.3. When no intersecting entry is above 0.3 the state, and so the current page, is
  unchanged.
\<close>

theorem most_visible_page_selected:
  assumes "\<forall>e\<in>set entries. isIntersecting e \<longrightarrow> findIndex (pageRefs s) (target e) \<noteq> None"
  shows "\<exists>mx vp. most_visible (pageRefs s) entries = (mx, vp) \<and>
     (\<forall>e\<in>set entries. isIntersecting e \<longrightarrow> intersectionRatio e \<le> mx) \<and>
     (case vp of
        None \<Rightarrow> mx = 0 \<and> observer_callback entries s = s
      | Some page \<Rightarrow>
          (\<exists>e\<in>set entries. isIntersecting e \<and> intersectionRatio e = mx \<and>
              findIndex (pageRefs s) (target e) = Some (page - 1) \<and> 1 \<le> page) \<and>
          observer_callback entries s = (if mx > 3 / 10 then handlePageVisible page s else s)) \<and>
     ((\<forall>e\<in>set entries. isIntersecting e \<longrightarrow> intersectionRatio e \<le> 3 / 10) \<longrightarrow>
        observer_callback entries s = s \<and> currentPage (observer_callback entries s) = currentPage s)"
proof -
  have quiet: "(\<forall>e\<in>set entries. isIntersecting e \<longrightarrow> intersectionRatio e \<le> 3 / 10) \<longrightarrow>
        observer_callback entries s = s \<and> currentPage (observer_callback entries s) = currentPage s"
    by (simp add: observer_quiet)
  have up: "\<forall>e\<in>set entries. isIntersecting e \<longrightarrow>
      intersectionRatio e \<le> fst (most_visible (pageRefs s) entries)"
    unfolding most_visible_def by (rule scan_upper)
  from most_visible_cases [OF assms] show ?thesis
  proof
    assume mv: "most_visible (pageRefs s) entries = (0, None)"
    then have "observer_callback entries s = s"
      by (simp add: observer_callback_def)
    with mv up quiet show ?thesis by simp
  next
    assume "\<exists>e\<in>set entries. \<exists>page. isIntersecting e \<and>
        most_visible (pageRefs s) entries = (intersectionRatio e, Some page) \<and>
        findIndex (pageRefs s) (target e) = Some (page - 1) \<and> 1 \<le> page \<and>
        (\<forall>e'\<in>set entries. isIntersecting e' \<longrightarrow> intersectionRatio e' \<le> intersectionRatio e)"
    then obtain e page where e: "e \<in> set entries" "isIntersecting e"
      and mv: "most_visible (pageRefs s) entries = (intersectionRatio e, Some page)"
      and ix: "findIndex (pageRefs s) (target e) = Some (page - 1)" "1 \<le> page"
      by blast
    from ix(2) have "page \<noteq> 0" by simp
    with mv have cb: "observer_callback entries s =
        (if intersectionRatio e > 3 / 10 then handlePageVisible page s else s)"
      by (simp add: observer_callback_def)
    from e ix have "\<exists>e'\<in>set entries. isIntersecting e' \<and> intersectionRatio e' = intersectionRatio e \<and>
              findIndex (pageRefs s) (target e') = Some (page - 1) \<and> 1 \<le> page"
      by blast
    with mv up cb quiet show ?thesis by simp
  qed
qed

theorem most_visible_page_selected_witness:
  "list_all (\<lambda>e. isIntersecting e \<longrightarrow> findIndex (pageRefs scrolling_viewer) (target e) \<noteq> None)
     page2_batch \<and>
   most_visible (pageRefs scrolling_viewer) page2_batch = (9 / 20, Some 2) \<and>
   observer_callback page2_batch scrolling_viewer = handlePageVisible 2 scrolling_viewer"
proof -
  have H: "\<forall>e\<in>set page2_batch. isIntersecting e \<longrightarrow>
      findIndex (pageRefs scrolling_viewer) (target e) \<noteq> None"
    by (simp add: scrolling_viewer_eq page2_batch_def)
  have mv: "most_visible (pageRefs scrolling_viewer) page2_batch = (9 / 20, Some 2)"
    by (simp add: scrolling_viewer_eq page2_batch_def most_visible_def scan_entry_def)
  from most_visible_page_selected [OF H] obtain mx vp
    where a: "most_visible (pageRefs scrolling_viewer) page2_batch = (mx, vp)"
      and b: "case vp of
        None \<Rightarrow> mx = 0 \<and> observer_callback page2_batch scrolling_viewer = scrolling_viewer
      | Some page \<Rightarrow>
          (\<exists>e\<in>set page2_batch. isIntersecting e \<and> intersectionRatio e = mx \<and>
              findIndex (pageRefs scrolling_viewer) (target e) = Some (page - 1) \<and> 1 \<le> page) \<and>
          observer_callback page2_batch scrolling_viewer =
            (if mx > 3 / 10 then handlePageVisible page scrolling_viewer else scrolling_viewer)"
    by blast
  from a mv have mx: "mx = 9 / 20" and vp: "vp = Some 2"
    by simp_all
  from b have "observer_callback page2_batch scrolling_viewer =
      (if mx > 3 / 10 then handlePageVisible 2 scrolling_viewer else scrolling_viewer)"
    unfolding vp by simp
  then have "observer_callback page2_batch scrolling_viewer = handlePageVisible 2 scrolling_viewer"
    by (simp add: mx)
  with H mv show ?thesis by (simp add: list_all_iff)
qed

section \<open>The deterrence overlay: claims C7 and C10\<close>

text \<open>
  C7. For a viewer mounted in a page whose document has the listeners \<open>doc\<close>, after any
  sequence of events: while the protection is on, the document has \<open>doc\<close> followed by
  the nine capturing registrations of one run of the effect, and a context-menu or copy
  event is cancelled; while it is off the document has \<open>doc\<close> alone. Unmounting, or
  props that set \<open>disableSecurity\<close>, leave exactly \<open>doc\<close>, so an event is cancelled
  afterwards only if the page's own listeners cancel it.
\<close>

theorem protection_listeners_removed_together:
  assumes "s = run (mount p doc) evs"
  shows "listeners (unmount s) = doc \<and>
     (disableSecurity' p' \<longrightarrow> listeners (rerender p' s) = doc) \<and>
     (disableSecurity' (props s) \<longrightarrow> listeners s = doc) \<and>
     (\<not> disableSecurity' (props s) \<longrightarrow>
        listeners s = doc @ protection (fresh_closure doc) \<and>
        defaultPrevented host (listeners s)
          \<lparr>event_type = ''contextmenu'', ctrlKey = False, key = []\<rparr> \<and>
        defaultPrevented host (listeners s)
          \<lparr>event_type = ''copy'', ctrlKey = False, key = []\<rparr>) \<and>
     defaultPrevented host (listeners (unmount s)) e = defaultPrevented host doc e"
proof -
  have inv: "sec_inv doc s"
    unfolding assms(1) by (intro sec_inv_run sec_inv_mount)
  have un: "listeners (unmount s) = doc"
    using sec_inv_cleanup [OF inv] by (simp add: unmount_def)
  have off: "listeners (rerender p' s) = doc" if "disableSecurity' p'"
  proof -
    from inv have "sec_inv doc (rerender p' s)" by (rule sec_inv_rerender)
    moreover have "disableSecurity' (props (rerender p' s))"
        using that
      by (simp add: rerender_def Let_def fileUrl_effect_def security_effect_def
          run_security_cleanup_def security_cleanup_def clearTimeout_def split: option.splits)
    ultimately show ?thesis
      by (auto simp: sec_inv_def)
  qed
  have dis: "listeners s = doc" if "disableSecurity' (props s)"
    using inv that by (auto simp: sec_inv_def)
  have en: "listeners s = doc @ protection (fresh_closure doc)" if "\<not> disableSecurity' (props s)"
    using inv that by (auto simp: sec_inv_def)
  have sup: "defaultPrevented host (doc @ protection k)
          \<lparr>event_type = ''contextmenu'', ctrlKey = False, key = []\<rparr> \<and>
        defaultPrevented host (doc @ protection k)
          \<lparr>event_type = ''copy'', ctrlKey = False, key = []\<rparr>" for k
    by (simp add: defaultPrevented_def protection_def)
  show ?thesis
    using un off dis en sup by simp
qed

theorem protection_listeners_removed_together_witness:
  "\<not> disableSecurity' (props hosted_viewer) \<and>
   listeners hosted_viewer = host_page @ protection 1 \<and>
   defaultPrevented (\<lambda>n e. False) (listeners hosted_viewer)
     \<lparr>event_type = ''contextmenu'', ctrlKey = False, key = []\<rparr> \<and>
   listeners (unmount hosted_viewer) = host_page \<and>
   \<not> defaultPrevented (\<lambda>n e. False) (listeners (unmount hosted_viewer))
     \<lparr>event_type = ''contextmenu'', ctrlKey = False, key = []\<rparr> \<and>
   disableSecurity' ((plain_props ''a.pdf'')\<lparr>disableSecurity := Some True\<rparr>) \<and>
   listeners (rerender ((plain_props ''a.pdf'')\<lparr>disableSecurity := Some True\<rparr>) hosted_viewer)
     = host_page"
proof -
  have en: "\<not> disableSecurity' (props hosted_viewer)"
    by (simp add: hosted_viewer_def eval_defs)
  have off: "disableSecurity' ((plain_props ''a.pdf'')\<lparr>disableSecurity := Some True\<rparr>)"
    by (simp add: disableSecurity'_def)
  have fr: "fresh_closure host_page = 1"
    by (simp add: host_page_def fresh_closure_def)
  have np: "\<not> defaultPrevented (\<lambda>n e. False) host_page
     \<lparr>event_type = ''contextmenu'', ctrlKey = False, key = []\<rparr>"
    by (simp add: host_page_def defaultPrevented_def)
  from protection_listeners_removed_together [OF hosted_viewer_def,
      where p' = "(plain_props ''a.pdf'')\<lparr>disableSecurity := Some True\<rparr>"
        and host = "\<lambda>n e. False"
        and e = "\<lparr>event_type = ''contextmenu'', ctrlKey = False, key = []\<rparr>"]
    en off fr np
  show ?thesis by auto
qed

text \<open>
  C10. For a mounted viewer with a commit pending, unmounting leaves no timer exactly
  when the protection is enabled; with \<open>disableSecurity\<close> set, React holds no cleanup
  for the effect and the pending timer survives the unmount (in the witness it then
  fires).
\<close>

theorem teardown_cancels_timer_iff_protected:
  assumes "s = run (mount p doc) evs" and "timers s \<noteq> []"
  shows "(timers (unmount s) = [] \<longleftrightarrow> \<not> disableSecurity' (props s)) \<and>
     (disableSecurity' (props s) \<longrightarrow> timers (unmount s) = timers s) \<and>
     (securityCleanup s = None \<longleftrightarrow> disableSecurity' (props s))"
proof -
  have inv: "sec_inv doc s"
    unfolding assms(1) by (intro sec_inv_run sec_inv_mount)
  have tr: "tracked s"
    unfolding assms(1) by (intro tracked_run tracked_mount)
  have "securityCleanup s = None \<longleftrightarrow> disableSecurity' (props s)"
    using inv by (auto simp: sec_inv_def)
  with unmount_timers [OF inv tr] assms(2) show ?thesis by simp
qed

theorem teardown_cancels_timer_iff_protected_witness:
  "timers pending_viewer = [(1, 300, 2)] \<and> \<not> disableSecurity' (props pending_viewer) \<and>
   timers (unmount pending_viewer) = [] \<and>
   timers pending_unprotected_viewer = [(1, 300, 2)] \<and>
   disableSecurity' (props pending_unprotected_viewer) \<and>
   timers (unmount pending_unprotected_viewer) = [(1, 300, 2)] \<and>
   commits (advance 300 (unmount pending_unprotected_viewer)) = [2]"
proof -
  have t1: "timers pending_viewer = [(1, 300, 2)]"
    by (simp add: pending_viewer_def page_events_def page2_batch_def eval_defs numeral_3_eq_3)
  have e1: "\<not> disableSecurity' (props pending_viewer)"
    by (simp add: pending_viewer_def page_events_def page2_batch_def eval_defs numeral_3_eq_3)
  have t2: "timers pending_unprotected_viewer = [(1, 300, 2)]"
    by (simp add: pending_unprotected_viewer_def page_events_def page2_batch_def eval_defs numeral_3_eq_3)
  have e2: "disableSecurity' (props pending_unprotected_viewer)"
    by (simp add: pending_unprotected_viewer_def page_events_def page2_batch_def eval_defs numeral_3_eq_3)
  have n1: "timers pending_viewer \<noteq> []" and n2: "timers pending_unprotected_viewer \<noteq> []"
    using t1 t2 by simp_all
  have u: "timers (unmount pending_unprotected_viewer) = [(1, 300, 2)]"
    using teardown_cancels_timer_iff_protected [OF pending_unprotected_viewer_def n2] e2 t2 by simp
  have "commits (unmount pending_unprotected_viewer) = []"
    by (simp add: pending_unprotected_viewer_def page_events_def page2_batch_def eval_defs numeral_3_eq_3)
  with u have f: "commits (advance 300 (unmount pending_unprotected_viewer)) = [2]"
    by (simp add: advance_eq is_due_def deadline_def)
  from teardown_cancels_timer_iff_protected [OF pending_viewer_def n1] e1 t1 t2 e2 u f
  show ?thesis by simp
qed

end
